theory Spec2Isabelle
  imports Main
begin

section \<open>Strings of the Go program\<close>

text \<open>
  A Go string is a sequence of bytes; \<open>string\<close> (a list of 8-bit characters) is that
  sequence, and \<open>length\<close> is Go's \<open>len\<close>. The program uses six functions of the
  package \<open>strings\<close> of the standard library: \<open>TrimSpace\<close>, \<open>TrimLeft\<close>,
  \<open>TrimRight\<close>, \<open>Join\<close>, \<open>Split\<close> and \<open>HasSuffix\<close>. They are modelled here from
  their documented behaviour on UTF-8 text.
\<close>

subsection \<open>White space as defined by Unicode\<close>

text \<open>
  \<open>strings.TrimSpace\<close> removes leading and trailing white space "as defined by Unicode"
  (\<open>unicode.IsSpace\<close>): the six ASCII characters tab, line feed, vertical tab, form feed,
  carriage return and space, then U+0085 and U+00A0, then U+1680, U+2000 to U+200A,
  U+2028, U+2029, U+202F, U+205F and U+3000. A code point is recognised only in its
  valid (shortest) UTF-8 encoding, which the three predicates below spell out byte by
  byte; any other byte sequence decodes to a code point that is not white space.
\<close>

definition asciiSpace :: "char \<Rightarrow> bool" where
  "asciiSpace c \<longleftrightarrow> c \<in> {CHR 0x09, CHR 0x0A, CHR 0x0B, CHR 0x0C, CHR 0x0D, CHR 0x20}"

definition latin1Space :: "char \<Rightarrow> char \<Rightarrow> bool" where
  \<comment> \<open>U+0085 is C2 85, U+00A0 is C2 A0.\<close>
  "latin1Space a b \<longleftrightarrow> a = CHR 0xC2 \<and> (b = CHR 0x85 \<or> b = CHR 0xA0)"

definition wideSpace :: "char \<Rightarrow> char \<Rightarrow> char \<Rightarrow> bool" where
  \<comment> \<open>U+1680 is E1 9A 80; U+2000..U+200A are E2 80 80..8A; U+2028, U+2029 and U+202F are
      E2 80 A8, E2 80 A9 and E2 80 AF; U+205F is E2 81 9F; U+3000 is E3 80 80.\<close>
  "wideSpace a b c \<longleftrightarrow>
     (a = CHR 0xE1 \<and> b = CHR 0x9A \<and> c = CHR 0x80) \<or>
     (a = CHR 0xE2 \<and> b = CHR 0x80 \<and>
        ((0x80::nat) \<le> of_char c \<and> of_char c \<le> (0x8A::nat) \<or>
         c = CHR 0xA8 \<or> c = CHR 0xA9 \<or> c = CHR 0xAF)) \<or>
     (a = CHR 0xE2 \<and> b = CHR 0x81 \<and> c = CHR 0x9F) \<or>
     (a = CHR 0xE3 \<and> b = CHR 0x80 \<and> c = CHR 0x80)"

text \<open>
  The number of bytes of the white-space code point a string starts with, and 0 when
  it starts with none.
\<close>

fun spaceWidth :: "string \<Rightarrow> nat" where
  "spaceWidth [] = 0"
| "spaceWidth [a] = (if asciiSpace a then 1 else 0)"
| "spaceWidth [a, b] = (if asciiSpace a then 1 else if latin1Space a b then 2 else 0)"
| "spaceWidth (a # b # c # _) =
     (if asciiSpace a then 1 else if latin1Space a b then 2
      else if wideSpace a b c then 3 else 0)"

text \<open>The same for the code point a string ends with; the argument is the reversed string.\<close>

fun spaceWidthLast :: "string \<Rightarrow> nat" where
  "spaceWidthLast [] = 0"
| "spaceWidthLast [c] = (if asciiSpace c then 1 else 0)"
| "spaceWidthLast [c, b] = (if asciiSpace c then 1 else if latin1Space b c then 2 else 0)"
| "spaceWidthLast (c # b # a # _) =
     (if asciiSpace c then 1 else if latin1Space b c then 2
      else if wideSpace a b c then 3 else 0)"

lemma spaceWidth_le: "spaceWidth s \<le> length s"
  by (induction s rule: spaceWidth.induct) auto

lemma spaceWidthLast_le: "spaceWidthLast s \<le> length s"
  by (induction s rule: spaceWidthLast.induct) auto

function trimLeftSpace :: "string \<Rightarrow> string" where
  "trimLeftSpace s =
     (if spaceWidth s = 0 then s else trimLeftSpace (drop (spaceWidth s) s))"
  by pat_completeness auto
termination
proof (relation "measure length")
  show "wf (measure length)" by simp
next
  fix s :: string
  assume "spaceWidth s \<noteq> 0"
  moreover have "spaceWidth s \<le> length s" by (rule spaceWidth_le)
  ultimately show "(drop (spaceWidth s) s, s) \<in> measure length" by simp
qed

function trimRightSpace :: "string \<Rightarrow> string" where
  "trimRightSpace s =
     (if spaceWidthLast (rev s) = 0 then s
      else trimRightSpace (take (length s - spaceWidthLast (rev s)) s))"
  by pat_completeness auto
termination
proof (relation "measure length")
  show "wf (measure length)" by simp
next
  fix s :: string
  assume "spaceWidthLast (rev s) \<noteq> 0"
  moreover have "spaceWidthLast (rev s) \<le> length s"
    using spaceWidthLast_le [of "rev s"] by simp
  ultimately show "(take (length s - spaceWidthLast (rev s)) s, s) \<in> measure length"
    by simp
qed

declare trimLeftSpace.simps [simp del] trimRightSpace.simps [simp del]

definition TrimSpace :: "string \<Rightarrow> string" where
  "TrimSpace s = trimRightSpace (trimLeftSpace s)"

subsection \<open>Trimming a set of ASCII characters\<close>

text \<open>
  \<open>strings.TrimLeft(s, cutset)\<close> and \<open>strings.TrimRight(s, cutset)\<close> remove the leading
  and the trailing bytes of \<open>s\<close> that occur in \<open>cutset\<close>; for a cutset of ASCII
  characters, as the program's \<open>" \t\n\r"\<close>, the library works byte by byte.
\<close>

definition TrimLeft :: "string \<Rightarrow> string \<Rightarrow> string" where
  "TrimLeft s cutset = dropWhile (\<lambda>c. c \<in> set cutset) s"

definition TrimRight :: "string \<Rightarrow> string \<Rightarrow> string" where
  "TrimRight s cutset = rev (dropWhile (\<lambda>c. c \<in> set cutset) (rev s))"

definition cutset :: string where
  \<comment> \<open>The literal \<open>" \t\n\r"\<close> of lines 99 and 100.\<close>
  "cutset = [CHR 0x20, CHR 0x09, CHR 0x0A, CHR 0x0D]"

subsection \<open>Join, Split, HasSuffix\<close>

fun Join :: "string list \<Rightarrow> string \<Rightarrow> string" where
  "Join [] sep = []"
| "Join [x] sep = x"
| "Join (x # y # ys) sep = x @ sep @ Join (y # ys) sep"

text \<open>\<open>strings.Index\<close>: the position of the first occurrence of \<open>sep\<close>, if there is one.\<close>

fun Index :: "string \<Rightarrow> string \<Rightarrow> nat option" where
  "Index [] sep = (if sep = [] then Some 0 else None)"
| "Index (c # cs) sep =
     (if take (length sep) (c # cs) = sep then Some 0
      else map_option Suc (Index cs sep))"

lemma Index_bound: "Index s sep = Some m \<Longrightarrow> m + length sep \<le> length s"
proof (induction s arbitrary: m)
  case Nil
  then show ?case by (simp split: if_splits)
next
  case (Cons c cs)
  show ?case
  proof (cases "take (length sep) (c # cs) = sep")
    case True
    then have "length (take (length sep) (c # cs)) = length sep" by simp
    then have "length sep \<le> length (c # cs)" by (simp del: take_Suc_Cons)
    with True Cons.prems show ?thesis by simp
  next
    case False
    with Cons.prems obtain k where "Index cs sep = Some k" "m = Suc k" by auto
    with Cons.IH show ?thesis by fastforce
  qed
qed

text \<open>
  \<open>strings.Split(s, sep)\<close> for a non-empty separator: cut at the first occurrence, go on
  behind it, and end with what is left. The program calls it with the delimiter only;
  the library's case of an empty separator (one string per code point) is not needed
  and returns the empty list here.
\<close>

function Split :: "string \<Rightarrow> string \<Rightarrow> string list" where
  "Split s sep =
     (if sep = [] then []
      else case Index s sep of
             None \<Rightarrow> [s]
           | Some m \<Rightarrow> take m s # Split (drop (m + length sep) s) sep)"
  by pat_completeness auto
termination
proof (relation "measure (\<lambda>(s, sep). length s)")
  show "wf (measure (\<lambda>(s, sep). length s))" by simp
next
  fix s sep :: string and m :: nat
  assume sep: "sep \<noteq> []" and idx: "Index s sep = Some m"
  have "m + length sep \<le> length s" by (rule Index_bound [OF idx])
  moreover have "0 < length sep" using sep by simp
  ultimately have "length s - (m + length sep) < length s" by linarith
  then show "((drop (m + length sep) s, sep), (s, sep)) \<in> measure (\<lambda>(s, sep). length s)"
    by simp
qed

declare Split.simps [simp del]


section \<open>The translation call: translateText\<close>

text \<open>
  The answer of the generative model, as far as the program reads it: a list of
  candidates, each with a content that may be absent (\<open>Content\<close> is a pointer in the
  client library), a content being a list of parts, a part being text or something
  else.
\<close>

datatype Part = Text string | OtherPart

datatype Candidate = Candidate (Content: "Part list option")

type_synonym GenerateContentResponse = "Candidate list"

text \<open>
  The service (the call \<open>model.GenerateContent\<close> of lines 33 to 37) is a parameter: a
  function from the prompt to an error message or a response.
\<close>

type_synonym backend = "string \<Rightarrow> string + GenerateContentResponse"

datatype error =
    HTMLParsingError string
  | GeminiAPICallError string
  | TextNotFound
  | RenderingError string

text \<open>
  A Go function either returns or panics (here: dereferencing a nil \<open>Content\<close>).
\<close>

datatype 'a outcome = Returns 'a | Panics

definition promptText :: string where
  "promptText =
     ''You are a professional translator. Translate the following text into natural and fluent Korean. Do not include any other explanations or supplementary text other than the translated text.''
     @ [CHR 0x0A, CHR 0x0A] @ ''Original Text:'' @ [CHR 0x0A]"

text \<open>
  \<open>translateText\<close> returns a string and an error (\<open>None\<close> is Go's nil); the second
  component of the model's result is the list of prompts sent to the service.
\<close>

definition translateText ::
  "backend \<Rightarrow> string \<Rightarrow> (string \<times> error option) outcome \<times> string list" where
  "translateText gen text =
     (if TrimSpace text = [] then (Returns ([], None), [])
      else
        let prompt = promptText @ text in
        (case gen prompt of
           Inl err \<Rightarrow> Returns ([], Some (GeminiAPICallError err))
         | Inr resp \<Rightarrow>
             (case resp of
                [] \<Rightarrow> Returns ([], Some TextNotFound)
              | cand # _ \<Rightarrow>
                  (case Content cand of
                     None \<Rightarrow> Panics
                   | Some parts \<Rightarrow>
                       (case parts of
                          Text t # _ \<Rightarrow> Returns (t, None)
                        | _ \<Rightarrow> Returns ([], Some TextNotFound)))),
         [prompt]))"

section \<open>The parsed document\<close>

text \<open>
  \<open>html.Node\<close> of the parser library, with the fields the program reads (\<open>Type\<close>,
  \<open>Data\<close>, the children in sibling order) and the attributes. A \<open>*html.Node\<close> is
  modelled by the position of the node in the document: the child indices on the way
  from the root. Reading \<open>node.Data\<close> is \<open>getData\<close>, assigning it is \<open>setData\<close>.
\<close>

datatype NodeType =
  ErrorNode | TextNode | DocumentNode | ElementNode | CommentNode | DoctypeNode | RawNode

datatype Attribute = Attribute (Namespace: string) (Key: string) (Val: string)

datatype Node = Node (Type: NodeType) (Data: string) (Attr: "Attribute list") (Children: "Node list")

type_synonym pointer = "nat list"

fun lookup :: "Node \<Rightarrow> pointer \<Rightarrow> Node option" where
  "lookup n [] = Some n"
| "lookup n (i # p) = (if i < length (Children n) then lookup (Children n ! i) p else None)"

definition getData :: "Node \<Rightarrow> pointer \<Rightarrow> string" where
  "getData doc p = (case lookup doc p of Some n \<Rightarrow> Data n | None \<Rightarrow> [])"

fun setData :: "Node \<Rightarrow> pointer \<Rightarrow> string \<Rightarrow> Node" where
  "setData (Node ty d at cs) [] v = Node ty v at cs"
| "setData (Node ty d at cs) (i # p) v =
     (if i < length cs then Node ty d at (cs[i := setData (cs ! i) p v])
      else Node ty d at cs)"

text \<open>
  The parser and the serialiser are parameters: \<open>html.Parse\<close> gives an error message or
  a document, \<open>html.Render\<close> an error message or the bytes written to the buffer.
\<close>

type_synonym parser = "string \<Rightarrow> string + Node"
type_synonym renderer = "Node \<Rightarrow> string + string"

section \<open>Extraction: the closure f of processHTMLContent\<close>

text \<open>
  The two slices \<open>textNodes\<close> and \<open>textsToTranslate\<close> the closure appends to are passed
  through the traversal. \<open>collect\<close> is the first loop of \<open>f\<close> (lines 65 to 70), run on the
  children of a \<open>p\<close> element at position \<open>p\<close>, from child \<open>i\<close> on; \<open>f_children\<close> is the
  second loop (lines 73 to 75).
\<close>

type_synonym collected = "pointer list \<times> string list"

fun collect :: "pointer \<Rightarrow> nat \<Rightarrow> Node list \<Rightarrow> collected \<Rightarrow> collected" where
  "collect p i [] acc = acc"
| "collect p i (c # cs) (textNodes, textsToTranslate) =
     collect p (Suc i) cs
       (if Type c = TextNode \<and> TrimSpace (Data c) \<noteq> []
        then (textNodes @ [p @ [i]], textsToTranslate @ [TrimSpace (Data c)])
        else (textNodes, textsToTranslate))"

fun f :: "pointer \<Rightarrow> Node \<Rightarrow> collected \<Rightarrow> collected"
  and f_children :: "pointer \<Rightarrow> nat \<Rightarrow> Node list \<Rightarrow> collected \<Rightarrow> collected" where
  "f p (Node ty d at cs) acc =
     f_children p 0 cs (if ty = ElementNode \<and> d = ''p'' then collect p 0 cs acc else acc)"
| "f_children p i [] acc = acc"
| "f_children p i (c # cs) acc = f_children p (Suc i) cs (f (p @ [i]) c acc)"

section \<open>Reinjection: the loop of lines 96 to 102\<close>

text \<open>
  The two slices of \<open>originalText\<close> computed at lines 99 and 100.
\<close>

definition leadingSpace :: "string \<Rightarrow> string" where
  "leadingSpace originalText =
     take (length originalText - length (TrimLeft originalText cutset)) originalText"

definition trailingSpace :: "string \<Rightarrow> string" where
  "trailingSpace originalText = drop (length (TrimRight originalText cutset)) originalText"

text \<open>
  \<open>i\<close> is the loop index, the second argument what is left of \<open>textNodes\<close>. An index
  outside \<open>translatedTexts\<close> would panic.
\<close>

fun reinject :: "nat \<Rightarrow> pointer list \<Rightarrow> string list \<Rightarrow> Node \<Rightarrow> Node outcome" where
  "reinject i [] translatedTexts doc = Returns doc"
| "reinject i (node # rest) translatedTexts doc =
     (let originalText = getData doc node
      in if i < length translatedTexts
         then reinject (Suc i) rest translatedTexts
                (setData doc node
                   (leadingSpace originalText @ translatedTexts ! i @ trailingSpace originalText))
         else Panics)"

section \<open>processHTMLContent\<close>

text \<open>
  The function returns a string and an error; the model adds the prompts sent to the
  service. The context and the client are the parameter \<open>gen\<close>; the warning printed
  at line 92 is not modelled.
\<close>

definition delimiter :: string where
  "delimiter = [CHR 0x0A] @ ''---'' @ [CHR 0x0A]"

definition processHTMLContent ::
  "parser \<Rightarrow> renderer \<Rightarrow> backend \<Rightarrow> string
     \<Rightarrow> (string \<times> error option) outcome \<times> string list" where
  "processHTMLContent parse render gen htmlContent =
     (case parse htmlContent of
        Inl err \<Rightarrow> (Returns (htmlContent, Some (HTMLParsingError err)), [])
      | Inr doc \<Rightarrow>
          (case f [] doc ([], []) of
             (textNodes, textsToTranslate) \<Rightarrow>
               if length textsToTranslate = 0 then (Returns (htmlContent, None), [])
               else
                 (case translateText gen (Join textsToTranslate delimiter) of
                    (Panics, sent) \<Rightarrow> (Panics, sent)
                  | (Returns (translatedCombinedText, Some err), sent) \<Rightarrow>
                      (Returns (htmlContent, Some err), sent)
                  | (Returns (translatedCombinedText, None), sent) \<Rightarrow>
                      (let translatedTexts = Split translatedCombinedText delimiter in
                       if length translatedTexts \<noteq> length textsToTranslate
                       then (Returns (htmlContent, None), sent)
                       else
                         (case reinject 0 textNodes translatedTexts doc of
                            Panics \<Rightarrow> (Panics, sent)
                          | Returns doc' \<Rightarrow>
                              (case render doc' of
                                 Inl err \<Rightarrow>
                                   (Returns (htmlContent, Some (RenderingError err)), sent)
                               | Inr out \<Rightarrow> (Returns (out, None), sent)))))))"

section \<open>The loop of main over the archive\<close>










section \<open>Notions of the specification\<close>

text \<open>
  A string that consists only of white space: a sequence of encoded white-space code
  points.
\<close>

inductive whitespaceOnly :: "string \<Rightarrow> bool" where
  empty: "whitespaceOnly []"
| ascii: "asciiSpace a \<Longrightarrow> whitespaceOnly s \<Longrightarrow> whitespaceOnly (a # s)"
| latin1: "latin1Space a b \<Longrightarrow> whitespaceOnly s \<Longrightarrow> whitespaceOnly (a # b # s)"
| wide: "wideSpace a b c \<Longrightarrow> whitespaceOnly s \<Longrightarrow> whitespaceOnly (a # b # c # s)"

code_pred whitespaceOnly .

text \<open>
  The nodes the traversal is to collect: the node at position \<open>q\<close> is a text node, a
  direct child of a \<open>p\<close> element, and its content is not empty after \<open>TrimSpace\<close>.
\<close>

definition isFragmentNode :: "Node \<Rightarrow> pointer \<Rightarrow> bool" where
  "isFragmentNode doc q \<longleftrightarrow>
     q \<noteq> [] \<and>
     (case (lookup doc (butlast q), lookup doc q) of
        (Some parent, Some c) \<Rightarrow>
          Type parent = ElementNode \<and> Data parent = ''p'' \<and>
          Type c = TextNode \<and> TrimSpace (Data c) \<noteq> []
      | _ \<Rightarrow> False)"

text \<open>
  The same in the words of the specification, where trimming removes space, tab,
  newline and carriage return only.
\<close>

definition trimFour :: "string \<Rightarrow> string" where
  "trimFour s = TrimRight (TrimLeft s cutset) cutset"

definition isFragmentNodeSpec :: "Node \<Rightarrow> pointer \<Rightarrow> bool" where
  "isFragmentNodeSpec doc q \<longleftrightarrow>
     q \<noteq> [] \<and>
     (case (lookup doc (butlast q), lookup doc q) of
        (Some parent, Some c) \<Rightarrow>
          Type parent = ElementNode \<and> Data parent = ''p'' \<and>
          Type c = TextNode \<and> trimFour (Data c) \<noteq> []
      | _ \<Rightarrow> False)"

text \<open>
  \<open>Contains s substr\<close>: the text \<open>substr\<close> occurs in \<open>s\<close>.
\<close>

definition Contains :: "string \<Rightarrow> string \<Rightarrow> bool" where
  "Contains s substr \<longleftrightarrow> Index s substr \<noteq> None"




section \<open>The fragments of a tree\<close>

text \<open>
  What the traversal appends, as a function of the tree: \<open>own i cs\<close> lists the
  fragments among the children \<open>cs\<close> of a \<open>p\<close> element, numbered from \<open>i\<close>, and
  \<open>frags n\<close> the fragments below \<open>n\<close>, each with its position relative to \<open>n\<close>.
\<close>

fun own :: "nat \<Rightarrow> Node list \<Rightarrow> (pointer \<times> string) list" where
  "own i [] = []"
| "own i (c # cs) =
     (if Type c = TextNode \<and> TrimSpace (Data c) \<noteq> [] then [([i], TrimSpace (Data c))] else [])
     @ own (Suc i) cs"

fun frags :: "Node \<Rightarrow> (pointer \<times> string) list"
  and fragsC :: "nat \<Rightarrow> Node list \<Rightarrow> (pointer \<times> string) list" where
  "frags (Node ty d at cs) = (if ty = ElementNode \<and> d = ''p'' then own 0 cs else []) @ fragsC 0 cs"
| "fragsC i [] = []"
| "fragsC i (c # cs) = map (\<lambda>(r, t). (i # r, t)) (frags c) @ fragsC (Suc i) cs"

section \<open>Example inputs\<close>

text \<open>
  Documents as the parser builds them (a document node, then \<open>html\<close>, \<open>head\<close> and
  \<open>body\<close>), a serialiser that prints tags and text as they are, and services with a fixed
  answer. They are the concrete inputs of the examples below.
\<close>

definition element :: "string \<Rightarrow> Node list \<Rightarrow> Node" where
  "element tag cs = Node ElementNode tag [] cs"

definition textNode :: "string \<Rightarrow> Node" where
  "textNode s = Node TextNode s [] []"

definition page :: "Node list \<Rightarrow> Node" where
  "page body = Node DocumentNode [] [] [element ''html'' [element ''head'' [], element ''body'' body]]"

definition docThree :: Node where
  "docThree = page [element ''p'' [textNode ''One''], element ''p'' [textNode '' Two ''],
                    element ''p'' [textNode ''Three'']]"

definition docPlain :: Node where
  "docPlain = page [element ''div'' [textNode ''Hi''], element ''p'' [textNode [CHR 0x0A]]]"

fun renderNode :: "Node \<Rightarrow> string" and renderNodes :: "Node list \<Rightarrow> string" where
  "renderNode (Node ty d at cs) =
     (if ty = TextNode then d
      else if ty = ElementNode then ''<'' @ d @ ''>'' @ renderNodes cs @ ''</'' @ d @ ''>''
      else renderNodes cs)"
| "renderNodes [] = []"
| "renderNodes (c # cs) = renderNode c @ renderNodes cs"

definition answers :: "string \<Rightarrow> backend" where
  "answers t = (\<lambda>prompt. Inr [Candidate (Some [Text t])])"

definition docHello :: Node where
  "docHello = page [element ''p'' [textNode ''  Hello world  \<newline>'']]"

definition docTwo :: Node where
  "docTwo = page [element ''p'' [textNode ''Hi''], element ''p'' [textNode ''  Bye  '']]"

definition docMixed :: Node where
  "docMixed = page
     [element ''p'' [textNode ''  A '', element ''em'' [textNode ''B''],
                     textNode [CHR 0xC2, CHR 0xA0], textNode ''C\<newline>''],
      element ''div'' [textNode ''D'', element ''p'' [textNode ''E'']]]"

definition docNbsp :: Node where
  "docNbsp = page [element ''p'' [textNode [CHR 0xC2, CHR 0xA0]]]"

definition docHi :: Node where
  "docHi = page [element ''p'' [textNode ''Hi'']]"







section \<open>Properties of the library functions\<close>

lemmas trim_eval = TrimSpace_def trimLeftSpace.simps trimRightSpace.simps asciiSpace_def
  latin1Space_def wideSpace_def

lemmas example_defs = element_def textNode_def page_def answers_def delimiter_def

lemmas node_defs = element_def textNode_def page_def

lemmas data_defs = getData_def leadingSpace_def trailingSpace_def TrimLeft_def
  TrimRight_def cutset_def Let_def

lemmas eval_defs = example_defs data_defs

lemma spaceWidth_ascii: "asciiSpace a \<Longrightarrow> spaceWidth (a # s) = 1"
  by (cases "(a # s)" rule: spaceWidth.cases) auto

lemma latin1_not_ascii: "latin1Space a b \<Longrightarrow> \<not> asciiSpace a"
  by (auto simp: latin1Space_def asciiSpace_def)

lemma wide_not_ascii: "wideSpace a b c \<Longrightarrow> \<not> asciiSpace a"
  by (auto simp: wideSpace_def asciiSpace_def)

lemma wide_not_latin1: "wideSpace a b c \<Longrightarrow> \<not> latin1Space a b"
  by (auto simp: wideSpace_def latin1Space_def)

lemma spaceWidth_latin1: "latin1Space a b \<Longrightarrow> spaceWidth (a # b # s) = 2"
  by (cases "(a # b # s)" rule: spaceWidth.cases) (auto dest: latin1_not_ascii)

lemma spaceWidth_wide: "wideSpace a b c \<Longrightarrow> spaceWidth (a # b # c # s) = 3"
  by (auto dest: wide_not_ascii wide_not_latin1)

lemma trimLeftSpace_whitespaceOnly: "whitespaceOnly s \<Longrightarrow> trimLeftSpace s = []"
proof (induction rule: whitespaceOnly.induct)
  case empty
  show ?case by (simp add: trimLeftSpace.simps)
next
  case (ascii a s)
  then show ?case
    by (subst trimLeftSpace.simps) (simp add: spaceWidth_ascii del: spaceWidth.simps)
next
  case (latin1 a b s)
  then show ?case
    by (subst trimLeftSpace.simps) (simp add: spaceWidth_latin1 del: spaceWidth.simps)
next
  case (wide a b c s)
  then show ?case
    by (subst trimLeftSpace.simps) (simp add: spaceWidth_wide del: spaceWidth.simps)
qed

lemma TrimSpace_whitespaceOnly: "whitespaceOnly s \<Longrightarrow> TrimSpace s = []"
  by (simp add: TrimSpace_def trimLeftSpace_whitespaceOnly trimRightSpace.simps)

section \<open>The traversal collects the fragment nodes\<close>

lemma collect_own:
  "collect p i cs (ns, ts) =
     (ns @ map (\<lambda>(r, t). p @ r) (own i cs), ts @ map snd (own i cs))"
  by (induction cs arbitrary: i ns ts) auto

lemma f_frags:
  "f p n acc = (fst acc @ map (\<lambda>(r, t). p @ r) (frags n), snd acc @ map snd (frags n))"
  "f_children p i cs acc =
     (fst acc @ map (\<lambda>(r, t). p @ r) (fragsC i cs), snd acc @ map snd (fragsC i cs))"
proof (induction p n acc and p i cs acc rule: f_f_children.induct)
  case (1 p ty d at cs acc)
  obtain ns ts where acc: "acc = (ns, ts)" by (cases acc)
  show ?case
  proof (cases "ty = ElementNode \<and> d = ''p''")
    case True
    with 1 acc show ?thesis by (simp add: collect_own)
  next
    case False
    with 1 acc show ?thesis by auto
  qed
next
  case (2 p i acc)
  then show ?case by simp
next
  case (3 p i c cs acc)
  then show ?case by (simp add: case_prod_unfold comp_def)
qed

lemma f_root:
  "f [] doc ([], []) = (map fst (frags doc), map snd (frags doc))"
  by (simp add: f_frags case_prod_unfold)

lemma own_mem:
  "(q, t) \<in> set (own i cs) \<longleftrightarrow>
     (\<exists>k < length cs. q = [i + k] \<and> Type (cs ! k) = TextNode \<and> TrimSpace (Data (cs ! k)) \<noteq> []
        \<and> t = TrimSpace (Data (cs ! k)))"
proof (induction cs arbitrary: i)
  case Nil
  then show ?case by simp
next
  case (Cons c cs)
  show ?case
  proof
    assume "(q, t) \<in> set (own i (c # cs))"
    then consider "q = [i]" "Type c = TextNode" "TrimSpace (Data c) \<noteq> []" "t = TrimSpace (Data c)"
      | "(q, t) \<in> set (own (Suc i) cs)"
      by (auto split: if_splits)
    then show "\<exists>k<length (c # cs). q = [i + k] \<and> Type ((c # cs) ! k) = TextNode \<and>
        TrimSpace (Data ((c # cs) ! k)) \<noteq> [] \<and> t = TrimSpace (Data ((c # cs) ! k))"
    proof cases
      case 1
      then show ?thesis by (intro exI [of _ 0]) simp
    next
      case 2
      with Cons.IH [of "Suc i"] obtain k where "k < length cs" "q = [Suc i + k]"
        "Type (cs ! k) = TextNode" "TrimSpace (Data (cs ! k)) \<noteq> []" "t = TrimSpace (Data (cs ! k))"
        by blast
      then show ?thesis by (intro exI [of _ "Suc k"]) simp
    qed
  next
    assume "\<exists>k<length (c # cs). q = [i + k] \<and> Type ((c # cs) ! k) = TextNode \<and>
        TrimSpace (Data ((c # cs) ! k)) \<noteq> [] \<and> t = TrimSpace (Data ((c # cs) ! k))"
    then obtain k where k: "k < length (c # cs)" "q = [i + k]" "Type ((c # cs) ! k) = TextNode"
      "TrimSpace (Data ((c # cs) ! k)) \<noteq> []" "t = TrimSpace (Data ((c # cs) ! k))"
      by blast
    show "(q, t) \<in> set (own i (c # cs))"
    proof (cases k)
      case 0
      with k show ?thesis by simp
    next
      case (Suc k')
      with k have "(q, t) \<in> set (own (Suc i) cs)"
        using Cons.IH [of "Suc i"] by auto
      then show ?thesis by simp
    qed
  qed
qed

lemma isFragmentNode_Nil [simp]: "\<not> isFragmentNode n []"
  by (simp add: isFragmentNode_def)

lemma isFragmentNode_single:
  "isFragmentNode (Node ty d at cs) [k] \<longleftrightarrow>
     ty = ElementNode \<and> d = ''p'' \<and> k < length cs \<and>
     Type (cs ! k) = TextNode \<and> TrimSpace (Data (cs ! k)) \<noteq> []"
  by (auto simp: isFragmentNode_def)

lemma isFragmentNode_deeper:
  "r \<noteq> [] \<Longrightarrow>
   isFragmentNode (Node ty d at cs) (k # r) \<longleftrightarrow> k < length cs \<and> isFragmentNode (cs ! k) r"
  by (auto simp: isFragmentNode_def split: option.splits)

lemma getData_Cons:
  "k < length cs \<Longrightarrow> getData (Node ty d at cs) (k # r) = getData (cs ! k) r"
  by (simp add: getData_def)

lemma getData_single:
  "k < length cs \<Longrightarrow> getData (Node ty d at cs) [k] = Data (cs ! k)"
  by (simp add: getData_def)

lemma frags_mem:
  "(q, t) \<in> set (frags n) \<longleftrightarrow> isFragmentNode n q \<and> t = TrimSpace (getData n q)"
  "(q, t) \<in> set (fragsC i cs) \<longleftrightarrow>
     (\<exists>k r. k < length cs \<and> q = (i + k) # r \<and> isFragmentNode (cs ! k) r \<and>
        t = TrimSpace (getData (cs ! k) r))"
proof (induction n and i cs arbitrary: q t and q t rule: frags_fragsC.induct)
  case (1 ty d at cs)
  show ?case
  proof (cases q)
    case Nil
    then show ?thesis using 1 [of q t] by (auto simp: own_mem)
  next
    case (Cons k r)
    show ?thesis
    proof (cases "r = []")
      case True
      have "(q, t) \<notin> set (fragsC 0 cs)"
        using 1 [of q t] Cons True by auto
      then show ?thesis
        using Cons True by (auto simp: own_mem isFragmentNode_single getData_single)
    next
      case False
      have "(q, t) \<notin> set (own 0 cs)"
        using Cons False by (auto simp: own_mem)
      then show ?thesis
        using 1 [of q t] Cons False
        by (auto simp: isFragmentNode_deeper getData_Cons)
    qed
  qed
next
  case (2 i)
  show ?case by simp
next
  case (3 i c cs)
  show ?case
  proof
    assume "(q, t) \<in> set (fragsC i (c # cs))"
    then consider r where "q = i # r" "(r, t) \<in> set (frags c)"
      | "(q, t) \<in> set (fragsC (Suc i) cs)"
      by auto
    then show "\<exists>k r. k < length (c # cs) \<and> q = (i + k) # r \<and>
        isFragmentNode ((c # cs) ! k) r \<and> t = TrimSpace (getData ((c # cs) ! k) r)"
    proof cases
      case 1
      with "3.IH"(1) [of r t] show ?thesis
        by (intro exI [of _ 0] exI [of _ r]) simp
    next
      case 2
      with "3.IH"(2) [of q t] obtain k r where "k < length cs" "q = (Suc i + k) # r"
        "isFragmentNode (cs ! k) r" "t = TrimSpace (getData (cs ! k) r)"
        by blast
      then show ?thesis
        by (intro exI [of _ "Suc k"] exI [of _ r]) simp
    qed
  next
    assume "\<exists>k r. k < length (c # cs) \<and> q = (i + k) # r \<and>
        isFragmentNode ((c # cs) ! k) r \<and> t = TrimSpace (getData ((c # cs) ! k) r)"
    then obtain k r where k: "k < length (c # cs)" "q = (i + k) # r"
      "isFragmentNode ((c # cs) ! k) r" "t = TrimSpace (getData ((c # cs) ! k) r)"
      by blast
    show "(q, t) \<in> set (fragsC i (c # cs))"
    proof (cases k)
      case 0
      with k "3.IH"(1) [of r t] have "(r, t) \<in> set (frags c)" by simp
      with k 0 show ?thesis by force
    next
      case (Suc k')
      with k have "(q, t) \<in> set (fragsC (Suc i) cs)"
        using "3.IH"(2) [of q t] by auto
      then show ?thesis by simp
    qed
  qed
qed

lemma own_distinct: "distinct (map fst (own i cs))"
proof (induction cs arbitrary: i)
  case Nil
  show ?case by simp
next
  case (Cons c cs)
  have "\<And>t. ([i], t) \<notin> set (own (Suc i) cs)"
    by (auto simp: own_mem)
  with Cons [of "Suc i"] show ?case by auto
qed

lemma frags_distinct:
  "distinct (map fst (frags n))"
  "distinct (map fst (fragsC i cs))"
proof (induction n and i cs rule: frags_fragsC.induct)
  case (1 ty d at cs)
  have "\<And>q t t'. (q, t) \<in> set (own 0 cs) \<Longrightarrow> (q, t') \<notin> set (fragsC 0 cs)"
    by (auto simp: own_mem frags_mem(2))
  with 1 show ?case
    by (auto simp: own_distinct)
next
  case (2 i)
  show ?case by simp
next
  case (3 i c cs)
  have inj: "distinct (map fst (map (\<lambda>(r, t). (i # r, t)) (frags c)))"
    using "3.IH"(1) by (simp add: distinct_map comp_def case_prod_unfold inj_on_def)
  have "\<And>r t t'. (i # r, t') \<notin> set (fragsC (Suc i) cs)"
    by (auto simp: frags_mem(2))
  with inj "3.IH"(2) show ?case
    by (auto simp: case_prod_unfold)
qed

section \<open>Reading and writing node data\<close>

lemma lookup_setData_None:
  "lookup (setData doc p v) q = None \<longleftrightarrow> lookup doc q = None"
proof (induction doc p v arbitrary: q rule: setData.induct)
  case (1 ty d at cs v)
  show ?case by (cases q) simp_all
next
  case (2 ty d at cs i p v)
  show ?case
  proof (cases q)
    case Nil
    then show ?thesis by simp
  next
    case (Cons j q')
    show ?thesis
    proof (cases "i < length cs")
      case True
      with Cons 2 [of q'] show ?thesis
        by (cases "j = i") simp_all
    next
      case False
      with Cons show ?thesis by simp
    qed
  qed
qed

lemma getData_setData_same:
  "lookup doc p \<noteq> None \<Longrightarrow> getData (setData doc p v) p = v"
proof (induction doc p v rule: setData.induct)
  case (1 ty d at cs v)
  show ?case by (simp add: getData_def)
next
  case (2 ty d at cs i p v)
  then have i: "i < length cs" by (simp split: if_splits)
  with 2 have "lookup (cs ! i) p \<noteq> None" by simp
  with 2 i have "getData (setData (cs ! i) p v) p = v" by simp
  with i show ?case by (simp add: getData_def)
qed

lemma getData_setData_other:
  "q \<noteq> p \<Longrightarrow> getData (setData doc p v) q = getData doc q"
proof (induction doc p v arbitrary: q rule: setData.induct)
  case (1 ty d at cs v)
  then show ?case by (cases q) (simp_all add: getData_def)
next
  case (2 ty d at cs i p v)
  show ?case
  proof (cases q)
    case Nil
    then show ?thesis by (simp add: getData_def)
  next
    case (Cons j q')
    show ?thesis
    proof (cases "i < length cs \<and> j = i")
      case True
      with Cons "2.prems" have "q' \<noteq> p" by simp
      with True "2.IH" [of q'] have "getData (setData (cs ! i) p v) q' = getData (cs ! i) q'"
        by simp
      with True Cons show ?thesis by (simp add: getData_def)
    next
      case False
      with Cons show ?thesis by (auto simp: getData_def)
    qed
  qed
qed

lemma reinject_returns:
  "i + length ns \<le> length tt \<Longrightarrow> \<exists>doc'. reinject i ns tt doc = Returns doc'"
  by (induction ns arbitrary: i doc) (simp_all add: Let_def)

lemma reinject_untouched:
  "reinject i ns tt doc = Returns doc' \<Longrightarrow> q \<notin> set ns \<Longrightarrow> getData doc' q = getData doc q"
proof (induction ns arbitrary: i doc)
  case Nil
  then show ?case by simp
next
  case (Cons n ns)
  from Cons.prems(1) have i: "i < length tt" by (simp add: Let_def split: if_splits)
  let ?d = "setData doc n (leadingSpace (getData doc n) @ tt ! i @ trailingSpace (getData doc n))"
  from Cons.prems(1) i have "reinject (Suc i) ns tt ?d = Returns doc'"
    by (simp add: Let_def)
  moreover from Cons.prems(2) have "q \<notin> set ns" "q \<noteq> n" by auto
  ultimately show ?case using Cons.IH [of "Suc i" ?d] by (simp add: getData_setData_other)
qed

lemma reinject_valid:
  "reinject i ns tt doc = Returns doc' \<Longrightarrow> lookup doc' q = None \<longleftrightarrow> lookup doc q = None"
proof (induction ns arbitrary: i doc)
  case Nil
  then show ?case by simp
next
  case (Cons n ns)
  from Cons.prems(1) have i: "i < length tt" by (simp add: Let_def split: if_splits)
  let ?d = "setData doc n (leadingSpace (getData doc n) @ tt ! i @ trailingSpace (getData doc n))"
  from Cons.prems(1) i have "reinject (Suc i) ns tt ?d = Returns doc'"
    by (simp add: Let_def)
  then show ?case using Cons.IH [of "Suc i" ?d] by (simp add: lookup_setData_None)
qed

lemma reinject_written:
  assumes "reinject i ns tt doc = Returns doc'"
    and "distinct ns"
    and "\<And>q. q \<in> set ns \<Longrightarrow> lookup doc q \<noteq> None"
    and "k < length ns"
  shows "getData doc' (ns ! k) =
     leadingSpace (getData doc (ns ! k)) @ tt ! (i + k) @ trailingSpace (getData doc (ns ! k))"
  using assms
proof (induction ns arbitrary: i doc k)
  case Nil
  then show ?case by simp
next
  case (Cons n ns)
  from Cons.prems(1) have i: "i < length tt" by (simp add: Let_def split: if_splits)
  let ?v = "leadingSpace (getData doc n) @ tt ! i @ trailingSpace (getData doc n)"
  let ?d = "setData doc n ?v"
  from Cons.prems(1) i have r: "reinject (Suc i) ns tt ?d = Returns doc'"
    by (simp add: Let_def)
  from Cons.prems(2) have d: "distinct ns" "n \<notin> set ns" by auto
  show ?case
  proof (cases k)
    case 0
    have "getData doc' n = getData ?d n" by (rule reinject_untouched [OF r d(2)])
    also have "\<dots> = ?v" using Cons.prems(3) [of n] by (simp add: getData_setData_same)
    finally show ?thesis using 0 by simp
  next
    case (Suc k')
    with Cons.prems(4) have k': "k' < length ns" by simp
    then have mem: "ns ! k' \<in> set ns" by simp
    with d have ne: "ns ! k' \<noteq> n" by auto
    have valid: "\<And>q. q \<in> set ns \<Longrightarrow> lookup ?d q \<noteq> None"
      using Cons.prems(3) by (simp add: lookup_setData_None)
    have "getData doc' (ns ! k') =
        leadingSpace (getData ?d (ns ! k')) @ tt ! (Suc i + k') @ trailingSpace (getData ?d (ns ! k'))"
      by (rule Cons.IH [OF r d(1) valid k'])
    with ne Suc show ?thesis by (simp add: getData_setData_other)
  qed
qed

lemma leadingSpace_takeWhile: "leadingSpace s = takeWhile (\<lambda>c. c \<in> set cutset) s"
proof -
  let ?P = "\<lambda>c. c \<in> set cutset"
  have "length s = length (takeWhile ?P s) + length (dropWhile ?P s)"
    by (metis length_append takeWhile_dropWhile_id)
  then have "length s - length (dropWhile ?P s) = length (takeWhile ?P s)" by simp
  moreover have "take (length (takeWhile ?P s)) s = takeWhile ?P s"
    by (metis append_eq_conv_conj takeWhile_dropWhile_id)
  ultimately show ?thesis by (simp add: leadingSpace_def TrimLeft_def)
qed

lemma trailingSpace_takeWhile: "trailingSpace s = rev (takeWhile (\<lambda>c. c \<in> set cutset) (rev s))"
proof -
  let ?P = "\<lambda>c. c \<in> set cutset"
  have "rev s = takeWhile ?P (rev s) @ dropWhile ?P (rev s)" by simp
  then have "s = rev (dropWhile ?P (rev s)) @ rev (takeWhile ?P (rev s))"
    by (metis rev_append rev_rev_ident)
  then have "drop (length (rev (dropWhile ?P (rev s)))) s = rev (takeWhile ?P (rev s))"
    by (metis append_eq_conv_conj)
  then show ?thesis by (simp add: trailingSpace_def TrimRight_def)
qed

section \<open>Trimming a trimmed text\<close>

lemma spaceWidth_trimLeftSpace: "spaceWidth (trimLeftSpace s) = 0"
proof (induction s rule: trimLeftSpace.induct)
  case (1 s)
  show ?case
  proof (cases "spaceWidth s = 0")
    case True
    then show ?thesis by (subst trimLeftSpace.simps) simp
  next
    case False
    with 1 show ?thesis by (subst trimLeftSpace.simps) simp
  qed
qed

lemma trimRightSpace_take: "\<exists>n. trimRightSpace s = take n s"
proof (induction s rule: trimRightSpace.induct)
  case (1 s)
  show ?case
  proof (cases "spaceWidthLast (rev s) = 0")
    case True
    then have "trimRightSpace s = take (length s) s" by (subst trimRightSpace.simps) simp
    then show ?thesis by blast
  next
    case False
    with 1 obtain n where
      "trimRightSpace (take (length s - spaceWidthLast (rev s)) s)
        = take n (take (length s - spaceWidthLast (rev s)) s)"
      by blast
    with False have "trimRightSpace s = take (min n (length s - spaceWidthLast (rev s))) s"
      by (subst trimRightSpace.simps) (simp add: min.commute)
    then show ?thesis by blast
  qed
qed

lemma spaceWidth_extend: "spaceWidth y \<noteq> 0 \<Longrightarrow> spaceWidth (y @ z) = spaceWidth y"
  by (cases y rule: spaceWidth.cases; cases z rule: spaceWidth.cases)
     (auto split: if_splits)

lemma spaceWidth_Cons:
  "spaceWidth (a # s) =
     (if asciiSpace a then 1
      else case s of [] \<Rightarrow> 0
           | b # s' \<Rightarrow>
               if latin1Space a b then 2
               else case s' of [] \<Rightarrow> 0 | c # _ \<Rightarrow> if wideSpace a b c then 3 else 0)"
  by (cases "a # s" rule: spaceWidth.cases) auto

lemma spaceWidth_cut:
  assumes "spaceWidth u = 0" and "t = take n u" and "t \<noteq> []"
    and "r = [] \<or> (\<exists>r'. r = CHR 0x0A # r')"
  shows "spaceWidth (t @ r) = 0"
proof -
  have nl: "\<And>a b. \<not> latin1Space a (CHR 0x0A)" "\<And>a b. \<not> wideSpace a (CHR 0x0A) b"
    "\<And>a b. \<not> wideSpace a b (CHR 0x0A)"
    by (auto simp: latin1Space_def wideSpace_def)
  from assms(2,3) obtain a u' where u: "u = a # u'" and n: "n \<noteq> 0"
    by (cases u; cases n) auto
  show ?thesis
  proof (cases u' )
    case Nil
    with u assms n show ?thesis
      by (cases n) (auto simp: nl spaceWidth_Cons simp del: spaceWidth.simps split: if_splits list.splits)
  next
    case (Cons b u'')
    show ?thesis
    proof (cases u'')
      case Nil
      with Cons u assms n show ?thesis
        by (cases n; cases "n - 1")
          (auto simp: nl spaceWidth_Cons simp del: spaceWidth.simps split: if_splits list.splits)
    next
      case (Cons c u3)
      with \<open>u' = b # u''\<close> u assms n show ?thesis
        by (cases n; cases "n - 1"; cases "n - 2")
          (auto simp: nl spaceWidth_Cons simp del: spaceWidth.simps split: if_splits list.splits)
    qed
  qed
qed

lemma spaceWidthLast_whole:
  "spaceWidthLast (rev x) = length x \<Longrightarrow> x \<noteq> [] \<Longrightarrow> spaceWidth x \<noteq> 0"
proof (cases x rule: spaceWidth.cases)
  case 1
  assume "x \<noteq> []" with 1 show ?thesis by simp
next
  case (2 a)
  assume "spaceWidthLast (rev x) = length x"
  with 2 show ?thesis by (auto split: if_splits)
next
  case (3 a b)
  assume "spaceWidthLast (rev x) = length x"
  with 3 show ?thesis by (auto split: if_splits dest: latin1_not_ascii)
next
  case (4 a b c r)
  assume h: "spaceWidthLast (rev x) = length x"
  have "spaceWidthLast (rev x) \<le> 3"
    by (cases "rev x" rule: spaceWidthLast.cases) auto
  with h 4 have "r = []" by simp
  with h 4 show ?thesis by (auto split: if_splits)
qed

lemma trimRightSpace_empty:
  "trimRightSpace x = [] \<Longrightarrow> x \<noteq> [] \<Longrightarrow> spaceWidth x \<noteq> 0"
proof (induction x rule: trimRightSpace.induct)
  case (1 s)
  let ?w = "spaceWidthLast (rev s)"
  let ?y = "take (length s - ?w) s"
  have w: "?w \<noteq> 0"
  proof
    assume "?w = 0"
    then have "trimRightSpace s = s" by (subst trimRightSpace.simps) simp
    with "1.prems" show False by simp
  qed
  then have y: "trimRightSpace ?y = []"
    using "1.prems"(1) by (subst (asm) trimRightSpace.simps) simp
  have le: "?w \<le> length s" using spaceWidthLast_le [of "rev s"] by simp
  show ?case
  proof (cases "?y = []")
    case True
    with le "1.prems"(2) have "?w = length s" by simp
    then show ?thesis using "1.prems"(2) by (rule spaceWidthLast_whole)
  next
    case False
    with "1.IH" w y have "spaceWidth ?y \<noteq> 0" by simp
    then have "spaceWidth (?y @ drop (length s - ?w) s) = spaceWidth ?y"
      by (rule spaceWidth_extend)
    with \<open>spaceWidth ?y \<noteq> 0\<close> show ?thesis by simp
  qed
qed

lemma TrimSpace_nonempty: "spaceWidth x = 0 \<Longrightarrow> x \<noteq> [] \<Longrightarrow> TrimSpace x \<noteq> []"
proof
  assume sw: "spaceWidth x = 0" and x: "x \<noteq> []" and t: "TrimSpace x = []"
  from sw have "trimLeftSpace x = x" by (subst trimLeftSpace.simps) simp
  with t have "trimRightSpace x = []" by (simp add: TrimSpace_def)
  with x have "spaceWidth x \<noteq> 0" by (rule trimRightSpace_empty [rotated])
  with sw show False by simp
qed

lemma TrimSpace_again:
  assumes "TrimSpace d \<noteq> []" and "r = [] \<or> (\<exists>r'. r = CHR 0x0A # r')"
  shows "TrimSpace (TrimSpace d @ r) \<noteq> []"
proof -
  obtain n where n: "TrimSpace d = take n (trimLeftSpace d)"
    using trimRightSpace_take [of "trimLeftSpace d"] by (auto simp: TrimSpace_def)
  have "spaceWidth (TrimSpace d @ r) = 0"
    by (rule spaceWidth_cut [OF spaceWidth_trimLeftSpace n assms])
  moreover have "TrimSpace d @ r \<noteq> []" using assms(1) by simp
  ultimately show ?thesis by (rule TrimSpace_nonempty)
qed

lemma Join_Cons:
  "\<exists>r. Join (t # ts) delimiter = t @ r \<and> (r = [] \<or> (\<exists>r'. r = CHR 0x0A # r'))"
  by (cases ts) (simp_all add: delimiter_def)

lemma TrimSpace_Join:
  assumes "texts \<noteq> []" and "\<And>t. t \<in> set texts \<Longrightarrow> \<exists>d. t = TrimSpace d \<and> TrimSpace d \<noteq> []"
  shows "TrimSpace (Join texts delimiter) \<noteq> []"
proof -
  from assms(1) obtain t ts where texts: "texts = t # ts" by (cases texts) auto
  with assms(2) [of t] obtain d where d: "t = TrimSpace d" "TrimSpace d \<noteq> []" by auto
  obtain r where r: "Join (t # ts) delimiter = t @ r" "r = [] \<or> (\<exists>r'. r = CHR 0x0A # r')"
    using Join_Cons by blast
  show ?thesis using TrimSpace_again [OF d(2) r(2)] texts r(1) d(1) by simp
qed

section \<open>What the traversal returns\<close>

lemma f_nodes_texts:
  assumes "f [] doc ([], []) = (textNodes, textsToTranslate)"
  shows "textNodes = map fst (frags doc)" and "textsToTranslate = map snd (frags doc)"
  using assms by (simp_all add: f_root)

lemma extraction_distinct:
  assumes "f [] doc ([], []) = (textNodes, textsToTranslate)"
  shows "distinct textNodes"
  using f_nodes_texts(1) [OF assms] frags_distinct(1) [of doc] by simp

lemma extraction_length:
  assumes "f [] doc ([], []) = (textNodes, textsToTranslate)"
  shows "length textsToTranslate = length textNodes"
  using f_nodes_texts [OF assms] by simp

lemma extraction_mem:
  assumes "f [] doc ([], []) = (textNodes, textsToTranslate)"
  shows "q \<in> set textNodes \<longleftrightarrow> isFragmentNode doc q"
proof -
  have "q \<in> set (map fst (frags doc)) \<longleftrightarrow> (\<exists>t. (q, t) \<in> set (frags doc))" by force
  also have "\<dots> \<longleftrightarrow> isFragmentNode doc q" by (simp add: frags_mem(1))
  finally show ?thesis using f_nodes_texts(1) [OF assms] by simp
qed

lemma extraction_text:
  assumes "f [] doc ([], []) = (textNodes, textsToTranslate)" and "i < length textNodes"
  shows "textsToTranslate ! i = TrimSpace (getData doc (textNodes ! i))"
proof -
  note nt = f_nodes_texts [OF assms(1)]
  from assms(2) nt(1) have i: "i < length (frags doc)" by simp
  then have "frags doc ! i \<in> set (frags doc)" by simp
  then have "(fst (frags doc ! i), snd (frags doc ! i)) \<in> set (frags doc)" by simp
  then have "snd (frags doc ! i) = TrimSpace (getData doc (fst (frags doc ! i)))"
    by (simp only: frags_mem(1))
  with nt i show ?thesis by simp
qed

lemma isFragmentNode_valid: "isFragmentNode doc q \<Longrightarrow> lookup doc q \<noteq> None"
  by (auto simp: isFragmentNode_def split: option.splits)

lemma isFragmentNode_nonblank: "isFragmentNode doc q \<Longrightarrow> TrimSpace (getData doc q) \<noteq> []"
  by (auto simp: isFragmentNode_def getData_def split: option.splits)

lemma extraction_valid:
  "f [] doc ([], []) = (textNodes, textsToTranslate) \<Longrightarrow> q \<in> set textNodes \<Longrightarrow>
   lookup doc q \<noteq> None"
  using extraction_mem isFragmentNode_valid by blast

lemma extraction_texts_trimmed:
  assumes "f [] doc ([], []) = (textNodes, textsToTranslate)" and "t \<in> set textsToTranslate"
  shows "\<exists>d. t = TrimSpace d \<and> TrimSpace d \<noteq> []"
proof -
  from assms(2) f_nodes_texts(2) [OF assms(1)] obtain q where "(q, t) \<in> set (frags doc)"
    by auto
  then have "isFragmentNode doc q" "t = TrimSpace (getData doc q)"
    by (simp_all add: frags_mem(1))
  then show ?thesis using isFragmentNode_nonblank by blast
qed

lemma translateText_prompts:
  "TrimSpace text \<noteq> [] \<Longrightarrow> snd (translateText gen text) = [promptText @ text]"
  by (simp add: translateText_def Let_def)

lemma processHTMLContent_prompts:
  assumes "parse htmlContent = Inr doc"
    and "f [] doc ([], []) = (textNodes, textsToTranslate)"
    and "textsToTranslate \<noteq> []"
  shows "snd (processHTMLContent parse render gen htmlContent)
     = snd (translateText gen (Join textsToTranslate delimiter))"
  using assms
  by (auto simp: processHTMLContent_def Let_def
      split: prod.splits outcome.splits option.splits sum.splits)

section \<open>The loop writes originals or translations\<close>

















section \<open>The claims\<close>

text \<open>
  C1. When the translated answer splits into a number of segments that differs from
  the number of fragments, \<open>processHTMLContent\<close> returns its input unchanged and no
  error: nothing of the answer is used.
\<close>

theorem processHTMLContent_count_mismatch:
  assumes "parse htmlContent = Inr doc"
    and "f [] doc ([], []) = (textNodes, textsToTranslate)"
    and "textsToTranslate \<noteq> []"
    and "translateText gen (Join textsToTranslate delimiter) = (Returns (translated, None), sent)"
    and "length (Split translated delimiter) \<noteq> length textsToTranslate"
  shows "processHTMLContent parse render gen htmlContent = (Returns (htmlContent, None), sent)"
  using assms by (simp add: processHTMLContent_def)

theorem processHTMLContent_count_mismatch_witness:
  "f [] docThree ([], []) = ([[0, 1, 0, 0], [0, 1, 1, 0], [0, 1, 2, 0]], [''One'', ''Two'', ''Three'']) \<and>
   translateText (answers ''Hana\<newline>---\<newline>Dul'') (Join [''One'', ''Two'', ''Three''] delimiter)
     = (Returns (''Hana\<newline>---\<newline>Dul'', None),
        [promptText @ ''One\<newline>---\<newline>Two\<newline>---\<newline>Three'']) \<and>
   length (Split ''Hana\<newline>---\<newline>Dul'' delimiter) = 2 \<and>
   processHTMLContent (\<lambda>s. Inr docThree) (\<lambda>d. Inr (renderNode d))
       (answers ''Hana\<newline>---\<newline>Dul'') ''<p>One</p><p> Two </p><p>Three</p>''
     = (Returns (''<p>One</p><p> Two </p><p>Three</p>'', None),
        [promptText @ ''One\<newline>---\<newline>Two\<newline>---\<newline>Three''])"
proof -
  have a: "f [] docThree ([], [])
      = ([[0, 1, 0, 0], [0, 1, 1, 0], [0, 1, 2, 0]], [''One'', ''Two'', ''Three''])"
    by (simp add: docThree_def example_defs trim_eval)
  have b: "translateText (answers ''Hana\<newline>---\<newline>Dul'') (Join [''One'', ''Two'', ''Three''] delimiter)
      = (Returns (''Hana\<newline>---\<newline>Dul'', None),
         [promptText @ ''One\<newline>---\<newline>Two\<newline>---\<newline>Three''])"
    by (simp add: translateText_def example_defs trim_eval)
  have c: "length (Split ''Hana\<newline>---\<newline>Dul'' delimiter) = 2"
    by (simp add: Split.simps delimiter_def)
  have d: "length (Split ''Hana\<newline>---\<newline>Dul'' delimiter) \<noteq> length [''One'', ''Two'', ''Three'']"
    using c by simp
  have "processHTMLContent (\<lambda>s. Inr docThree) (\<lambda>d. Inr (renderNode d))
       (answers ''Hana\<newline>---\<newline>Dul'') ''<p>One</p><p> Two </p><p>Three</p>''
     = (Returns (''<p>One</p><p> Two </p><p>Three</p>'', None),
        [promptText @ ''One\<newline>---\<newline>Two\<newline>---\<newline>Three''])"
    by (rule processHTMLContent_count_mismatch [OF refl a _ b d]) simp
  with a b c show ?thesis by blast
qed

text \<open>
  C2. When the answer splits into as many segments as there are fragments, the loop
  of lines 96 to 102 does not panic and \<open>processHTMLContent\<close> returns the serialisation
  of the document it leaves. In that document the node from which fragment \<open>i\<close> was
  taken (the node whose trimmed content is \<open>textsToTranslate ! i\<close>) holds segment \<open>i\<close>
  between its own leading and trailing space, for every \<open>i\<close>, and the data of every
  other node is as before: the position in the two lists is the only link.
\<close>

theorem processHTMLContent_aligned:
  assumes "parse htmlContent = Inr doc"
    and "f [] doc ([], []) = (textNodes, textsToTranslate)"
    and "textsToTranslate \<noteq> []"
    and "translateText gen (Join textsToTranslate delimiter) = (Returns (translated, None), sent)"
    and "length (Split translated delimiter) = length textsToTranslate"
  shows "\<exists>doc'. reinject 0 textNodes (Split translated delimiter) doc = Returns doc' \<and>
     processHTMLContent parse render gen htmlContent =
       (case render doc' of
          Inl err \<Rightarrow> (Returns (htmlContent, Some (RenderingError err)), sent)
        | Inr out \<Rightarrow> (Returns (out, None), sent)) \<and>
     (\<forall>i < length textNodes.
        textsToTranslate ! i = TrimSpace (getData doc (textNodes ! i)) \<and>
        getData doc' (textNodes ! i) =
          leadingSpace (getData doc (textNodes ! i)) @ Split translated delimiter ! i
          @ trailingSpace (getData doc (textNodes ! i))) \<and>
     (\<forall>q. q \<notin> set textNodes \<longrightarrow> getData doc' q = getData doc q)"
proof -
  let ?tt = "Split translated delimiter"
  have "0 + length textNodes \<le> length ?tt"
    using assms(5) extraction_length [OF assms(2)] by simp
  then obtain doc' where r: "reinject 0 textNodes ?tt doc = Returns doc'"
    using reinject_returns by blast
  have p: "processHTMLContent parse render gen htmlContent =
       (case render doc' of
          Inl err \<Rightarrow> (Returns (htmlContent, Some (RenderingError err)), sent)
        | Inr out \<Rightarrow> (Returns (out, None), sent))"
    using assms r by (simp add: processHTMLContent_def)
  have w: "textsToTranslate ! i = TrimSpace (getData doc (textNodes ! i)) \<and>
        getData doc' (textNodes ! i) =
          leadingSpace (getData doc (textNodes ! i)) @ ?tt ! i
          @ trailingSpace (getData doc (textNodes ! i))"
    if "i < length textNodes" for i
    using reinject_written [OF r extraction_distinct [OF assms(2)] extraction_valid [OF assms(2)] that]
      extraction_text [OF assms(2) that]
    by simp
  have u: "getData doc' q = getData doc q" if "q \<notin> set textNodes" for q
    by (rule reinject_untouched [OF r that])
  from r p w u show ?thesis by blast
qed

theorem processHTMLContent_aligned_witness:
  "f [] docTwo ([], []) = ([[0, 1, 0, 0], [0, 1, 1, 0]], [''Hi'', ''Bye'']) \<and>
   translateText (answers ''Salut\<newline>---\<newline>Au revoir'') (Join [''Hi'', ''Bye''] delimiter)
     = (Returns (''Salut\<newline>---\<newline>Au revoir'', None), [promptText @ ''Hi\<newline>---\<newline>Bye'']) \<and>
   Split ''Salut\<newline>---\<newline>Au revoir'' delimiter = [''Salut'', ''Au revoir''] \<and>
   processHTMLContent (\<lambda>s. Inr docTwo) (\<lambda>d. Inr (renderNode d))
       (answers ''Salut\<newline>---\<newline>Au revoir'') ''<p>Hi</p><p>  Bye  </p>''
     = (Returns (''<html><head></head><body><p>Salut</p><p>  Au revoir  </p></body></html>'', None),
        [promptText @ ''Hi\<newline>---\<newline>Bye''])"
proof -
  have a: "f [] docTwo ([], []) = ([[0, 1, 0, 0], [0, 1, 1, 0]], [''Hi'', ''Bye''])"
    by (simp add: docTwo_def example_defs trim_eval)
  have b: "translateText (answers ''Salut\<newline>---\<newline>Au revoir'') (Join [''Hi'', ''Bye''] delimiter)
     = (Returns (''Salut\<newline>---\<newline>Au revoir'', None), [promptText @ ''Hi\<newline>---\<newline>Bye''])"
    by (simp add: translateText_def example_defs trim_eval)
  have c: "Split ''Salut\<newline>---\<newline>Au revoir'' delimiter = [''Salut'', ''Au revoir'']"
    by (simp add: Split.simps delimiter_def)
  have l: "length (Split ''Salut\<newline>---\<newline>Au revoir'' delimiter) = length [''Hi'', ''Bye'']"
    by (simp add: c)
  have ne: "[''Hi'', ''Bye''] \<noteq> []" by simp
  have "processHTMLContent (\<lambda>s. Inr docTwo) (\<lambda>d. Inr (renderNode d))
       (answers ''Salut\<newline>---\<newline>Au revoir'') ''<p>Hi</p><p>  Bye  </p>''
     = (Returns (''<html><head></head><body><p>Salut</p><p>  Au revoir  </p></body></html>'', None),
        [promptText @ ''Hi\<newline>---\<newline>Bye''])"
    using processHTMLContent_aligned [where parse = "\<lambda>s. Inr docTwo"
      and htmlContent = "''<p>Hi</p><p>  Bye  </p>''" and render = "\<lambda>d. Inr (renderNode d)",
      OF refl a ne b l]
    by (simp add: c docTwo_def node_defs data_defs)
  with a b c show ?thesis by blast
qed

text \<open>
  C3. After reinjection the node of fragment \<open>i\<close> holds the longest prefix of its
  original text made of space, tab, newline and carriage return, then segment \<open>i\<close>,
  then the longest such suffix of the original text. The example of the
  specification: \<open>"  Hello world  \n"\<close> with the segment \<open>"Bonjour"\<close> becomes
  \<open>"  Bonjour  \n"\<close>.
\<close>

theorem reinject_keeps_outer_whitespace:
  assumes "f [] doc ([], []) = (textNodes, textsToTranslate)"
    and "length translatedTexts = length textsToTranslate"
  shows "\<exists>doc'. reinject 0 textNodes translatedTexts doc = Returns doc' \<and>
     (\<forall>i < length textNodes.
        getData doc' (textNodes ! i) =
          takeWhile (\<lambda>c. c \<in> set cutset) (getData doc (textNodes ! i))
          @ translatedTexts ! i
          @ rev (takeWhile (\<lambda>c. c \<in> set cutset) (rev (getData doc (textNodes ! i)))))"
proof -
  have len: "0 + length textNodes \<le> length translatedTexts"
    using assms(2) extraction_length [OF assms(1)] by simp
  then obtain doc' where r: "reinject 0 textNodes translatedTexts doc = Returns doc'"
    using reinject_returns by blast
  have "getData doc' (textNodes ! i) =
          takeWhile (\<lambda>c. c \<in> set cutset) (getData doc (textNodes ! i))
          @ translatedTexts ! i
          @ rev (takeWhile (\<lambda>c. c \<in> set cutset) (rev (getData doc (textNodes ! i))))"
    if "i < length textNodes" for i
    using reinject_written [OF r extraction_distinct [OF assms(1)] extraction_valid [OF assms(1)] that]
    by (simp add: leadingSpace_takeWhile trailingSpace_takeWhile)
  with r show ?thesis by blast
qed

theorem reinject_keeps_outer_whitespace_witness:
  "f [] docHello ([], []) = ([[0, 1, 0, 0]], [''Hello world'']) \<and>
   getData docHello [0, 1, 0, 0] = ''  Hello world  \<newline>'' \<and>
   (\<exists>doc'. reinject 0 [[0, 1, 0, 0]] [''Bonjour''] docHello = Returns doc' \<and>
      getData doc' [0, 1, 0, 0] = ''  Bonjour  \<newline>'')"
proof -
  have a: "f [] docHello ([], []) = ([[0, 1, 0, 0]], [''Hello world''])"
    by (simp add: docHello_def example_defs trim_eval)
  have g: "getData docHello [0, 1, 0, 0] = ''  Hello world  \<newline>''"
    by (simp add: docHello_def eval_defs)
  have l: "length [''Bonjour''] = length [''Hello world'']" by simp
  have "\<exists>doc'. reinject 0 [[0, 1, 0, 0]] [''Bonjour''] docHello = Returns doc' \<and>
      getData doc' [0, 1, 0, 0] = ''  Bonjour  \<newline>''"
    using reinject_keeps_outer_whitespace [OF a l] by (simp add: docHello_def eval_defs)
  with a g show ?thesis by blast
qed

text \<open>
  C4, as stated, fails: a text node holding a no-break space only (\<open>&nbsp;\<close>, the bytes
  C2 A0) is a direct child of a \<open>p\<close> element and is not empty after trimming space, tab,
  newline and carriage return, yet the traversal collects nothing, because
  \<open>strings.TrimSpace\<close> removes every Unicode white space.
\<close>

theorem f_skips_unicode_space_counterexample:
  "isFragmentNodeSpec docNbsp [0, 1, 0, 0] \<and>
   trimFour (getData docNbsp [0, 1, 0, 0]) = [CHR 0xC2, CHR 0xA0] \<and>
   [0, 1, 0, 0] \<notin> set (fst (f [] docNbsp ([], []))) \<and>
   f [] docNbsp ([], []) = ([], [])"
  by (simp add: docNbsp_def isFragmentNodeSpec_def trimFour_def eval_defs trim_eval)

text \<open>
  C4, amended. The traversal visits the whole tree and collects exactly the text nodes
  that are direct children of a \<open>p\<close> element and whose content is not empty after
  \<open>strings.TrimSpace\<close> (which removes Unicode white space), each of them once; the text
  of a fragment is the content of its node trimmed by \<open>strings.TrimSpace\<close>.
\<close>

theorem f_collects_fragment_nodes:
  assumes "f [] doc ([], []) = (textNodes, textsToTranslate)"
  shows "set textNodes = {q. isFragmentNode doc q} \<and> distinct textNodes \<and>
         textsToTranslate = map (\<lambda>q. TrimSpace (getData doc q)) textNodes"
proof -
  have "set textNodes = {q. isFragmentNode doc q}"
    using extraction_mem [OF assms] by blast
  moreover have "distinct textNodes" by (rule extraction_distinct [OF assms])
  moreover have "textsToTranslate = map (\<lambda>q. TrimSpace (getData doc q)) textNodes"
    by (rule nth_equalityI)
      (simp_all add: extraction_length [OF assms] extraction_text [OF assms])
  ultimately show ?thesis by blast
qed

theorem f_collects_fragment_nodes_witness:
  "f [] docMixed ([], []) = ([[0, 1, 0, 0], [0, 1, 0, 3], [0, 1, 1, 1, 0]], [''A'', ''C'', ''E'']) \<and>
   {q. isFragmentNode docMixed q} = {[0, 1, 0, 0], [0, 1, 0, 3], [0, 1, 1, 1, 0]} \<and>
   map (\<lambda>q. TrimSpace (getData docMixed q)) [[0, 1, 0, 0], [0, 1, 0, 3], [0, 1, 1, 1, 0]]
     = [''A'', ''C'', ''E'']"
proof -
  have a: "f [] docMixed ([], [])
      = ([[0, 1, 0, 0], [0, 1, 0, 3], [0, 1, 1, 1, 0]], [''A'', ''C'', ''E''])"
    by (simp add: docMixed_def example_defs trim_eval)
  from f_collects_fragment_nodes [OF a] a show ?thesis by simp
qed

text \<open>
  C5, as stated, fails: the payload is the fixed prompt followed by the joined
  fragments, and the prompt says nothing about the delimiter. For the single fragment
  \<open>Hi\<close> the payload contains neither \<open>---\<close> nor the word \<open>delimiter\<close>.
\<close>

theorem prompt_without_delimiter_counterexample:
  "snd (processHTMLContent (\<lambda>s. Inr docHi) (\<lambda>d. Inr (renderNode d))
          (answers ''Annyeong'') ''<p>Hi</p>'') = [promptText @ ''Hi''] \<and>
   \<not> Contains (promptText @ ''Hi'') ''---'' \<and>
   \<not> Contains (promptText @ ''Hi'') ''delimiter''"
proof -
  have a: "f [] docHi ([], []) = ([[0, 1, 0, 0]], [''Hi''])"
    by (simp add: docHi_def example_defs trim_eval)
  have b: "snd (translateText (answers ''Annyeong'') (Join [''Hi''] delimiter)) = [promptText @ ''Hi'']"
    by (simp add: translateText_def example_defs trim_eval)
  have ne: "[''Hi''] \<noteq> []" by simp
  have "snd (processHTMLContent (\<lambda>s. Inr docHi) (\<lambda>d. Inr (renderNode d))
          (answers ''Annyeong'') ''<p>Hi</p>'') = [promptText @ ''Hi'']"
    using processHTMLContent_prompts [where parse = "\<lambda>s. Inr docHi" and htmlContent = "''<p>Hi</p>''",
        OF refl a ne] b
    by simp
  moreover have "\<not> Contains (promptText @ ''Hi'') ''---''"
    by (simp add: Contains_def promptText_def)
  moreover have "\<not> Contains (promptText @ ''Hi'') ''delimiter''"
    by (simp add: Contains_def promptText_def)
  ultimately show ?thesis by blast
qed

text \<open>
  C5, amended. For a member with a non-empty list of fragments \<open>processHTMLContent\<close>
  sends exactly one prompt to the service, whatever the service answers: the fixed
  instruction to translate into Korean, followed by the fragment texts joined with the
  delimiter.
\<close>

theorem processHTMLContent_one_call:
  assumes "parse htmlContent = Inr doc"
    and "f [] doc ([], []) = (textNodes, textsToTranslate)"
    and "textsToTranslate \<noteq> []"
  shows "snd (processHTMLContent parse render gen htmlContent)
     = [promptText @ Join textsToTranslate delimiter]"
proof -
  have "TrimSpace (Join textsToTranslate delimiter) \<noteq> []"
    using assms(3) extraction_texts_trimmed [OF assms(2)] by (rule TrimSpace_Join)
  then show ?thesis
    using processHTMLContent_prompts [of parse htmlContent doc textNodes textsToTranslate render gen]
      assms
    by (simp add: translateText_prompts)
qed

theorem processHTMLContent_one_call_witness:
  "f [] docThree ([], []) = ([[0, 1, 0, 0], [0, 1, 1, 0], [0, 1, 2, 0]], [''One'', ''Two'', ''Three'']) \<and>
   snd (processHTMLContent (\<lambda>s. Inr docThree) (\<lambda>d. Inr (renderNode d))
          (answers ''Hana\<newline>---\<newline>Dul'') ''<p>One</p><p> Two </p><p>Three</p>'')
     = [promptText @ ''One\<newline>---\<newline>Two\<newline>---\<newline>Three'']"
proof -
  have a: "f [] docThree ([], [])
      = ([[0, 1, 0, 0], [0, 1, 1, 0], [0, 1, 2, 0]], [''One'', ''Two'', ''Three''])"
    by (simp add: docThree_def example_defs trim_eval)
  have ne: "[''One'', ''Two'', ''Three''] \<noteq> []" by simp
  have j: "Join [''One'', ''Two'', ''Three''] delimiter = ''One\<newline>---\<newline>Two\<newline>---\<newline>Three''"
    by (simp add: delimiter_def)
  from processHTMLContent_one_call [where parse = "\<lambda>s. Inr docThree"
      and htmlContent = "''<p>One</p><p> Two </p><p>Three</p>''", OF refl a ne] a
  show ?thesis by (simp only: j)
qed




text \<open>
  C7. For a markup member in which the traversal finds no fragment,
  \<open>processHTMLContent\<close> returns its input unchanged, with no error, and sends nothing to
  the translation service.
\<close>

theorem processHTMLContent_no_fragments:
  assumes "parse htmlContent = Inr doc"
    and "snd (f [] doc ([], [])) = []"
  shows "processHTMLContent parse render gen htmlContent = (Returns (htmlContent, None), [])"
proof -
  obtain textNodes textsToTranslate
    where e: "f [] doc ([], []) = (textNodes, textsToTranslate)"
    by (cases "f [] doc ([], [])")
  with assms(2) have "textsToTranslate = []" by simp
  with e assms(1) show ?thesis by (simp add: processHTMLContent_def)
qed

theorem processHTMLContent_no_fragments_witness:
  "(\<lambda>s. Inr docPlain) ''<div>Hi</div><p>\<newline></p>'' = (Inr docPlain :: string + Node) \<and>
   snd (f [] docPlain ([], [])) = [] \<and>
   processHTMLContent (\<lambda>s. Inr docPlain) (\<lambda>d. Inr (renderNode d)) (answers ''x'')
       ''<div>Hi</div><p>\<newline></p>''
     = (Returns (''<div>Hi</div><p>\<newline></p>'', None), [])"
proof -
  have h: "snd (f [] docPlain ([], [])) = []"
    by (simp add: docPlain_def example_defs trim_eval)
  show ?thesis
    using h processHTMLContent_no_fragments
      [of "\<lambda>s. Inr docPlain" "''<div>Hi</div><p>\<newline></p>''" docPlain
          "\<lambda>d. Inr (renderNode d)" "answers ''x''"]
    by simp
qed




text \<open>
  C9. For every input string that is empty or consists only of white space,
  \<open>translateText\<close> returns the empty string and no error, and sends nothing to the
  translation service: the list of prompts sent is empty, whatever the service is.
\<close>

theorem translateText_blank:
  "whitespaceOnly text \<Longrightarrow> translateText gen text = (Returns ([], None), [])"
  by (simp add: translateText_def TrimSpace_whitespaceOnly)

theorem translateText_blank_witness:
  "whitespaceOnly [CHR 0x20, CHR 0x09, CHR 0xC2, CHR 0xA0, CHR 0x0A] \<and>
   translateText (answers ''x'') [CHR 0x20, CHR 0x09, CHR 0xC2, CHR 0xA0, CHR 0x0A]
     = (Returns ([], None), []) \<and>
   whitespaceOnly [] \<and> translateText (answers ''x'') [] = (Returns ([], None), [])"
  using translateText_blank [of "[CHR 0x20, CHR 0x09, CHR 0xC2, CHR 0xA0, CHR 0x0A]" "answers ''x''"]
    translateText_blank [of "[]" "answers ''x''"]
  by (simp add: whitespaceOnly.intros asciiSpace_def latin1Space_def)

text \<open>
  C10. Whenever \<open>processHTMLContent\<close> returns an error (the parser's, the service's or
  the serialiser's), the string it returns with it is its input.
\<close>

theorem processHTMLContent_error_keeps_input:
  assumes "processHTMLContent parse render gen htmlContent = (Returns (s, Some e), sent)"
  shows "s = htmlContent"
  using assms
  by (auto simp: processHTMLContent_def Let_def
      split: sum.splits prod.splits if_splits outcome.splits option.splits)

theorem processHTMLContent_error_keeps_input_witness:
  "processHTMLContent (\<lambda>s. Inr docThree) (\<lambda>d. Inl ''no space left'')
       (answers ''Hana\<newline>---\<newline>Dul\<newline>---\<newline>Set'') ''<p>One</p><p> Two </p><p>Three</p>''
     = (Returns (''<p>One</p><p> Two </p><p>Three</p>'', Some (RenderingError ''no space left'')),
        [promptText @ ''One\<newline>---\<newline>Two\<newline>---\<newline>Three''])"
proof -
  let ?res = "processHTMLContent (\<lambda>s. Inr docThree) (\<lambda>d. Inl ''no space left'')
       (answers ''Hana\<newline>---\<newline>Dul\<newline>---\<newline>Set'') ''<p>One</p><p> Two </p><p>Three</p>''"
  have a: "f [] docThree ([], [])
      = ([[0, 1, 0, 0], [0, 1, 1, 0], [0, 1, 2, 0]], [''One'', ''Two'', ''Three''])"
    by (simp add: docThree_def example_defs trim_eval)
  have b: "translateText (answers ''Hana\<newline>---\<newline>Dul\<newline>---\<newline>Set'')
        (Join [''One'', ''Two'', ''Three''] delimiter)
      = (Returns (''Hana\<newline>---\<newline>Dul\<newline>---\<newline>Set'', None),
         [promptText @ ''One\<newline>---\<newline>Two\<newline>---\<newline>Three''])"
    by (simp add: translateText_def example_defs trim_eval)
  have c: "Split ''Hana\<newline>---\<newline>Dul\<newline>---\<newline>Set'' delimiter = [''Hana'', ''Dul'', ''Set'']"
    by (simp add: Split.simps delimiter_def)
  obtain doc' where r: "reinject 0 [[0, Suc 0, 0, 0], [0, Suc 0, Suc 0, 0], [0, Suc 0, 2, 0]]
      [''Hana'', ''Dul'', ''Set''] docThree = Returns doc'"
    using reinject_returns [of 0 "[[0, Suc 0, 0, 0], [0, Suc 0, Suc 0, 0], [0, Suc 0, 2, 0]]"
        "[''Hana'', ''Dul'', ''Set'']" docThree]
    by auto
  have "\<exists>s. ?res = (Returns (s, Some (RenderingError ''no space left'')),
        [promptText @ ''One\<newline>---\<newline>Two\<newline>---\<newline>Three''])"
    unfolding processHTMLContent_def by (simp add: a b c r del: Join.simps reinject.simps)
  then obtain s where s: "?res = (Returns (s, Some (RenderingError ''no space left'')),
        [promptText @ ''One\<newline>---\<newline>Two\<newline>---\<newline>Three''])"
    by blast
  from processHTMLContent_error_keeps_input [OF s] s show ?thesis by simp
qed

end
